theory Spec2Isabelle
  imports Main "HOL-Library.Word"
begin

unbundle bit_operations_syntax

section \<open>JavaScript strings and values\<close>

text \<open>
  A JavaScript string is modelled as a \<^typ>\<open>string\<close>: a list of code units, each read
  through \<^const>\<open>of_char\<close> as the number \<open>charCodeAt\<close> returns (code units above
  255 are outside the model). A value of type \<open>string | null\<close> (or
  \<open>string | undefined\<close>) is a \<^typ>\<open>string option\<close>.
\<close>

text \<open>Truthiness of a \<open>string | null\<close>: \<open>null\<close>, \<open>undefined\<close> and \<open>""\<close> are falsy.\<close>

definition truthy :: "string option \<Rightarrow> bool" where
  "truthy v = (case v of None \<Rightarrow> False | Some s \<Rightarrow> s \<noteq> [])"

text \<open>\<open>a || b\<close> on two \<open>string | null\<close> values, and \<open>a || "literal"\<close>.\<close>

definition js_or :: "string option \<Rightarrow> string option \<Rightarrow> string option" where
  "js_or a b = (if truthy a then a else b)"

definition string_or :: "string option \<Rightarrow> string \<Rightarrow> string" where
  "string_or v d = (case v of None \<Rightarrow> d | Some s \<Rightarrow> if s = [] then d else s)"

text \<open>\<open>s.startsWith(p)\<close> and \<open>s.includes(p)\<close> (named \<open>includes_str\<close> here).\<close>

definition startsWith :: "string \<Rightarrow> string \<Rightarrow> bool" where
  "startsWith s p = (take (length p) s = p)"

fun includes_str :: "string \<Rightarrow> string \<Rightarrow> bool" where
  "includes_str [] p = (p = [])"
| "includes_str (c # cs) p = (startsWith (c # cs) p \<or> includes_str cs p)"

text \<open>
  \<open>s.trim()\<close> removes white space and line terminators at both ends. Among the code
  units a \<^typ>\<open>char\<close> holds these are TAB, LF, VT, FF, CR, space and NBSP.
\<close>

definition is_space :: "char \<Rightarrow> bool" where
  "is_space c = ((of_char c :: nat) \<in> {9, 10, 11, 12, 13, 32, 160})"

definition trim :: "string \<Rightarrow> string" where
  "trim s = rev (dropWhile is_space (rev (dropWhile is_space s)))"

text \<open>
  \<open>n.toString(radix)\<close> for a non-negative integer \<open>n\<close>: no leading zeros, lower-case
  digits; the template literal \<open>`${n}`\<close> is \<open>toString 10 n\<close>.
\<close>

definition digit_char :: "nat \<Rightarrow> char" where
  "digit_char d = ''0123456789abcdefghijklmnopqrstuvwxyz'' ! d"

fun toString :: "nat \<Rightarrow> nat \<Rightarrow> string" where
  "toString radix n =
     (if radix < 2 \<or> n < radix then [digit_char n]
      else toString radix (n div radix) @ [digit_char (n mod radix)])"

declare toString.simps [simp del]

text \<open>\<open>s.padStart(n, c)\<close> for a one-character pad, \<open>s.slice(a, b)\<close> for \<open>0 \<le> a \<le> b\<close>
  (\<open>s.slice(a)\<close> is \<^term>\<open>drop a s\<close>), and \<open>xs.join(sep)\<close>.\<close>

definition padStart :: "string \<Rightarrow> nat \<Rightarrow> char \<Rightarrow> string" where
  "padStart s n c = replicate (n - length s) c @ s"

definition slice :: "string \<Rightarrow> nat \<Rightarrow> nat \<Rightarrow> string" where
  "slice s a b = take (b - a) (drop a s)"

fun join :: "string list \<Rightarrow> string \<Rightarrow> string" where
  "join [] sep = []"
| "join [x] sep = x"
| "join (x # y # ys) sep = x @ sep @ join (y # ys) sep"

text \<open>
  \<open>s.split("\n\n")\<close>: the pieces between successive occurrences of the separator, found
  from left to right; there is always at least one piece.
\<close>

definition push_front :: "char \<Rightarrow> string list \<Rightarrow> string list" where
  "push_front c ps = (case ps of [] \<Rightarrow> [[c]] | p # qs \<Rightarrow> (c # p) # qs)"

fun split_nn :: "string \<Rightarrow> string list" where
  "split_nn (a # b # cs) =
     (if a = CHR 0x0A \<and> b = CHR 0x0A then [] # split_nn cs
      else push_front a (split_nn (b # cs)))"
| "split_nn [a] = [[a]]"
| "split_nn [] = [[]]"

text \<open>\<open>s.split(c)\<close> for a one-character separator, used to read an identifier's groups.\<close>

fun split_char :: "char \<Rightarrow> string \<Rightarrow> string list" where
  "split_char c [] = [[]]"
| "split_char c (x # xs) =
     (if x = c then [] # split_char c xs
      else case split_char c xs of [] \<Rightarrow> [[x]] | g # gs \<Rightarrow> (x # g) # gs)"

section \<open>lib/api.ts: request headers\<close>

text \<open>\<open>isSecureUrl\<close>, documented as "Check if a URL is secure (HTTPS or localhost)".\<close>

definition isSecureUrl :: "string \<Rightarrow> bool" where
  "isSecureUrl url \<longleftrightarrow>
     startsWith url ''https://'' \<or> includes_str url ''localhost'' \<or> includes_str url ''127.0.0.1''"

text \<open>\<open>process.env.NEXT_PUBLIC_API_URL || "http://localhost:8000"\<close>\<close>

definition API_BASE_URL :: "string option \<Rightarrow> string" where
  "API_BASE_URL env = string_or env ''http://localhost:8000''"

definition streamUrl :: "string option \<Rightarrow> string" where
  "streamUrl env = API_BASE_URL env @ ''/api/v1/query/stream''"

text \<open>
  The headers that \<open>fetchWithClientId(url)\<close> and \<open>streamQuery\<close> (with \<open>url = streamUrl\<close>)
  send, given the client id and the stored OpenAI key.
\<close>

type_synonym headers = "string \<rightharpoonup> string"

definition request_headers :: "string \<Rightarrow> string option \<Rightarrow> string \<Rightarrow> headers" where
  "request_headers clientId openaiApiKey url =
     (let h0 = [''Content-Type'' \<mapsto> ''application/json''];
          h1 = (if clientId \<noteq> [] then h0(''X-Client-ID'' \<mapsto> clientId) else h0)
      in case openaiApiKey of
           None \<Rightarrow> h1
         | Some key \<Rightarrow>
             if key \<noteq> [] \<and> isSecureUrl url then h1(''X-OpenAI-API-Key'' \<mapsto> key) else h1)"

text \<open>
  For comparison with \<^const>\<open>isSecureUrl\<close>, the destination test in the words of the
  specification, "HTTPS or a loopback address": the URL has the scheme \<open>https\<close>, or its
  host (what follows \<open>://\<close> up to the port, path, query or fragment) is \<open>localhost\<close> or
  \<open>127.0.0.1\<close>.
\<close>

fun after_scheme :: "string \<Rightarrow> string" where
  "after_scheme (a # b # c # rest) =
     (if a = CHR '':'' \<and> b = CHR ''/'' \<and> c = CHR ''/'' then rest
      else after_scheme (b # c # rest))"
| "after_scheme _ = []"

definition url_host :: "string \<Rightarrow> string" where
  "url_host url = takeWhile (\<lambda>c. c \<notin> set '':/?#'') (after_scheme url)"

definition spec_secure_destination :: "string \<Rightarrow> bool" where
  "spec_secure_destination url \<longleftrightarrow>
     startsWith url ''https://'' \<or> url_host url = ''localhost'' \<or> url_host url = ''127.0.0.1''"

section \<open>lib/api.ts: the frame decoder of \<open>streamQuery\<close>\<close>

text \<open>
  The loop of \<open>streamQuery\<close> reads from \<open>reader\<close>, decodes with a \<open>TextDecoder\<close> in
  streaming mode and yields one event per complete frame. Its environment is explicit:
  \<^item> each \<open>reader.read()\<close> is an element of a list: a chunk of bytes, or a rejection
    (the promise rejects, the generator throws); the end of the list is \<open>done\<close>;
  \<^item> \<open>JSON.parse\<close> is a parameter \<open>parse\<close>, \<open>None\<close> where it throws;
  \<^item> the \<open>TextDecoder\<close> is a parameter \<open>decode\<close> taking its state and a chunk to
    the decoded text and its next state (\<open>decoder.decode(value, {stream: true})\<close>);
  \<^item> the optional \<open>signal\<close> is \<open>None\<close> when the caller passes none; otherwise it tells,
    for the \<open>k\<close>-th time \<open>signal?.aborted\<close> is read, what is read.
  What the generator does is a list of outputs in order (the events it yields, the
  \<open>console.warn\<close> calls, the \<open>reader.cancel()\<close> calls) and how it ends. What
  \<open>streamQuery\<close> does before the loop (the request, the status check) yields nothing:
  when it throws, the generator ends with \<open>Threw\<close> and no output.
\<close>

datatype 'b read = Chunk "'b list" | ReadError string

datatype 'e gen_out = Yield 'e | Warn string | ReaderCancel

datatype outcome = Returned | Threw string

type_synonym signal = "nat \<Rightarrow> bool"

definition aborted :: "signal option \<Rightarrow> nat \<Rightarrow> bool" where
  "aborted sig k = (case sig of None \<Rightarrow> False | Some f \<Rightarrow> f k)"

text \<open>The \<open>finally\<close> block: \<open>if (signal?.aborted) await reader.cancel()\<close>.\<close>

definition finally_cancel :: "signal option \<Rightarrow> nat \<Rightarrow> 'e gen_out list" where
  "finally_cancel sig k = (if aborted sig k then [ReaderCancel] else [])"

text \<open>The body of \<open>for (const line of lines)\<close> for one line, and the whole \<open>for\<close>.\<close>

definition frame_out :: "(string \<Rightarrow> 'e option) \<Rightarrow> string \<Rightarrow> 'e gen_out list" where
  "frame_out parse line =
     (if startsWith line ''data: '' then
        (case parse (drop 6 line) of Some data \<Rightarrow> [Yield data] | None \<Rightarrow> [Warn line])
      else [])"

definition frames_out :: "(string \<Rightarrow> 'e option) \<Rightarrow> string list \<Rightarrow> 'e gen_out list" where
  "frames_out parse lines = concat (map (frame_out parse) lines)"

text \<open>
  The \<open>while (true)\<close> loop with its \<open>finally\<close>; \<open>k\<close> counts the reads of
  \<open>signal?.aborted\<close>, \<open>d\<close> is the decoder's state, \<open>buffer\<close> the residual text.
  \<open>lines.pop()\<close> is the last piece, which \<open>split\<close> always has.
\<close>

fun streamQuery_loop ::
  "(string \<Rightarrow> 'e option) \<Rightarrow> ('d \<Rightarrow> 'b list \<Rightarrow> string \<times> 'd) \<Rightarrow> signal option \<Rightarrow>
     nat \<Rightarrow> 'd \<Rightarrow> string \<Rightarrow> 'b read list \<Rightarrow> 'e gen_out list \<times> outcome" where
  "streamQuery_loop parse decode sig k d buffer rs =
     (if aborted sig k then (ReaderCancel # finally_cancel sig (Suc k), Returned)
      else case rs of
        [] \<Rightarrow> (finally_cancel sig (Suc k), Returned)
      | ReadError msg # _ \<Rightarrow> (finally_cancel sig (Suc k), Threw msg)
      | Chunk v # rest \<Rightarrow>
          (let (text, d1) = decode d v;
               lines = split_nn (buffer @ text);
               (out, res) = streamQuery_loop parse decode sig (Suc k) d1 (last lines) rest
           in (frames_out parse (butlast lines) @ out, res)))"

declare streamQuery_loop.simps [simp del]

text \<open>The events among the outputs, in order.\<close>

fun yielded :: "'e gen_out list \<Rightarrow> 'e list" where
  "yielded [] = []"
| "yielded (Yield e # out) = e # yielded out"
| "yielded (_ # out) = yielded out"

text \<open>The text that the decoder produces for a sequence of chunks.\<close>

fun decode_all :: "('d \<Rightarrow> 'b list \<Rightarrow> string \<times> 'd) \<Rightarrow> 'd \<Rightarrow> 'b list list \<Rightarrow> string" where
  "decode_all decode d [] = []"
| "decode_all decode d (v # vs) = (let (text, d1) = decode d v in text @ decode_all decode d1 vs)"

text \<open>
  What streaming mode means for a decoder: nothing comes out of no bytes, and decoding
  two chunks one after the other gives the text, and leaves the state, of decoding them
  joined (an incomplete multi-byte sequence at the end of a chunk is kept in the state).
\<close>

definition stream_decoder :: "('d \<Rightarrow> 'b list \<Rightarrow> string \<times> 'd) \<Rightarrow> bool" where
  "stream_decoder decode \<longleftrightarrow>
     (\<forall>d. decode d [] = ([], d)) \<and>
     (\<forall>d a b. decode d (a @ b) =
        (let (s, d1) = decode d a; (t, d2) = decode d1 b in (s @ t, d2)))"

definition never_aborted :: "signal option \<Rightarrow> bool" where
  "never_aborted sig = (\<forall>k. \<not> aborted sig k)"

text \<open>
  A frame as the server writes it: text with no blank line inside and no line feed at
  its end, followed on the wire by the blank line \<open>"\n\n"\<close>.
\<close>

definition frame_ok :: "string \<Rightarrow> bool" where
  "frame_ok f \<longleftrightarrow> \<not> includes_str f ''\<newline>\<newline>'' \<and> (f = [] \<or> last f \<noteq> CHR 0x0A)"

definition wire :: "string list \<Rightarrow> string" where
  "wire fs = concat (map (\<lambda>f. f @ ''\<newline>\<newline>'') fs)"

section \<open>lib/clientId.ts: the device identifier\<close>

text \<open>
  \<open>hashString\<close> (djb2 with XOR). In the source \<open>hash\<close> is a double: \<open>hash * 33\<close> is
  exact (its magnitude stays below \<open>2^53\<close>, \<open>hash\<close> being a 32-bit integer after every
  \<open>^\<close>), and \<open>^\<close> takes both operands modulo \<open>2^32\<close>; so the loop is arithmetic on
  32-bit words, and \<open>hash >>> 0\<close> reads the word as unsigned.
\<close>

definition hashString :: "string \<Rightarrow> nat" where
  "hashString str =
     unat (foldl (\<lambda>hash c. (hash * 33) XOR of_nat (of_char c)) (5381 :: 32 word) str)"

text \<open>\<open>hash.toString(16).padStart(8, "0")\<close>\<close>

definition hex8 :: "nat \<Rightarrow> string" where
  "hex8 n = padStart (toString 16 n) 8 CHR ''0''"

text \<open>
  The second half of \<open>generateDeviceFingerprint\<close>: from the joined components
  (\<open>fingerprint\<close>) to the identifier.
\<close>

definition format_id :: "string \<Rightarrow> string" where
  "format_id fingerprint =
     (let hash1 = hashString fingerprint;
          hash2 = hashString (rev fingerprint);
          hex1 = hex8 hash1;
          hex2 = hex8 hash2;
          hex3 = hex8 (hashString (toString 10 hash1 @ toString 10 hash2));
          hex4 = hex8 (hashString (fingerprint @ ''salt''))
      in hex1 @ ''-'' @ slice hex2 0 4 @ ''-4'' @ slice hex2 5 8 @ ''-'' @ slice hex3 0 4 @ ''-'' @
         drop 4 hex3 @ slice hex4 0 4)"

text \<open>
  What the browser reports. \<open>has_window\<close> is \<open>typeof window !== "undefined"\<close>. The
  screen's sizes and depths and the core count are integers; \<open>devicePixelRatio\<close> and
  \<open>deviceMemory\<close> may be fractions, and a fraction is carried with the text that the
  template literal prints for it.
\<close>

datatype number = Integer nat | Decimal string

definition show_number :: "number \<Rightarrow> string" where
  "show_number x = (case x of Integer n \<Rightarrow> toString 10 n | Decimal s \<Rightarrow> s)"

text \<open>\<open>x || d\<close> for an optional number: \<open>undefined\<close> and \<open>0\<close> are falsy.\<close>

definition number_or :: "number option \<Rightarrow> nat \<Rightarrow> number" where
  "number_or x d =
     (case x of None \<Rightarrow> Integer d | Some (Integer 0) \<Rightarrow> Integer d | Some v \<Rightarrow> v)"

record device =
  has_window :: bool
  screen_width :: nat
  screen_height :: nat
  colorDepth :: nat
  pixelDepth :: nat
  devicePixelRatio :: "number option"
  timeZone :: "string option"
  language :: "string option"
  languages :: "string list option"
  platform :: "string option"
  hardwareConcurrency :: "nat option"
  deviceMemory :: "number option"

definition components :: "device \<Rightarrow> string list" where
  "components dev =
     [toString 10 (screen_width dev) @ ''x'' @ toString 10 (screen_height dev),
      toString 10 (colorDepth dev),
      toString 10 (pixelDepth dev),
      show_number (number_or (devicePixelRatio dev) 1),
      string_or (timeZone dev) [],
      string_or (language dev) [],
      join (case languages dev of None \<Rightarrow> [] | Some ls \<Rightarrow> ls) '','',
      string_or (platform dev) [],
      toString 10 (case hardwareConcurrency dev of None \<Rightarrow> 0 | Some n \<Rightarrow> n),
      show_number (number_or (deviceMemory dev) 0)]"

definition generateDeviceFingerprint :: "device \<Rightarrow> string" where
  "generateDeviceFingerprint dev =
     (if \<not> has_window dev then [] else format_id (join (components dev) ''|''))"

text \<open>\<open>localStorage\<close> is a map from keys to strings, passed in and returned.\<close>

type_synonym storage = "string \<rightharpoonup> string"

definition CLIENT_ID_KEY :: string where
  "CLIENT_ID_KEY = ''clinical-trials-client-id''"

definition getClientId :: "device \<Rightarrow> storage \<Rightarrow> string \<times> storage" where
  "getClientId dev localStorage =
     (if \<not> has_window dev then ([], localStorage)
      else if truthy (localStorage CLIENT_ID_KEY)
      then (string_or (localStorage CLIENT_ID_KEY) [], localStorage)
      else
        (let fingerprint = generateDeviceFingerprint dev
         in (fingerprint,
             if fingerprint \<noteq> [] then localStorage(CLIENT_ID_KEY \<mapsto> fingerprint)
             else localStorage)))"

definition setClientId :: "device \<Rightarrow> string \<Rightarrow> storage \<Rightarrow> storage" where
  "setClientId dev clientId localStorage =
     (if \<not> has_window dev then localStorage else localStorage(CLIENT_ID_KEY \<mapsto> clientId))"

definition clearClientId :: "device \<Rightarrow> storage \<Rightarrow> storage" where
  "clearClientId dev localStorage =
     (if \<not> has_window dev then localStorage else localStorage(CLIENT_ID_KEY := None))"

text \<open>A desktop browser, as an example of a device.\<close>

definition example_device :: device where
  "example_device =
     \<lparr>has_window = True, screen_width = 1920, screen_height = 1080, colorDepth = 24,
      pixelDepth = 24, devicePixelRatio = Some (Integer 1), timeZone = Some ''UTC'',
      language = Some ''en-US'', languages = Some [''en-US'', ''en''],
      platform = Some ''Linux x86_64'', hardwareConcurrency = Some 8,
      deviceMemory = Some (Integer 8)\<rparr>"

text \<open>A lower-case hexadecimal digit.\<close>

definition is_hex :: "char \<Rightarrow> bool" where
  "is_hex c = (c \<in> set ''0123456789abcdef'')"

section \<open>hooks/useStreamingQuery.ts: the streaming hook\<close>

text \<open>\<open>StreamEvent\<close> of \<open>types/index.ts\<close>, as \<open>JSON.parse\<close> delivers it, and \<open>StreamResult\<close>.\<close>

record StreamEvent =
  ev_type :: string
  ev_stage :: "string option"
  ev_label :: "string option"
  ev_content :: "string option"
  ev_query :: "string option"
  ev_conversation_id :: "string option"
  ev_answer :: "string option"
  ev_sql_query :: "string option"
  ev_message :: "string option"
  ev_code :: "string option"

record StreamResult =
  conversationId :: string
  answer :: string
  res_sqlQuery :: "string option"

text \<open>A call of one of the observers in \<open>StreamCallbacks\<close>, with its arguments.\<close>

datatype callback =
  OnStage string string
| OnToken string
| OnSql string
| OnComplete StreamResult
| OnError string "string option"

text \<open>
  The state of one \<open>useStreamingQuery()\<close>: the five \<open>useState\<close> cells and the ref. An
  \<open>AbortController\<close> is its index in \<open>controllers\<close>, which holds every controller's
  \<open>signal.aborted\<close>; \<open>abortControllerRef.current\<close> is such an index or \<open>null\<close>.
\<close>

record hook =
  isStreaming :: bool
  streamedContent :: string
  currentSqlQuery :: "string option"
  currentStage :: "string option"
  error :: "string option"
  controllers :: "bool list"
  abortControllerRef :: "nat option"

definition cancelQuery :: "hook \<Rightarrow> hook" where
  "cancelQuery h =
     (case abortControllerRef h of
        Some c \<Rightarrow> h\<lparr>controllers := (controllers h)[c := True], abortControllerRef := None\<rparr>
      | None \<Rightarrow> h)\<lparr>isStreaming := False\<rparr>"

text \<open>\<open>executeQuery\<close> up to its \<open>try\<close>: the lines that run before the first \<open>await\<close>.\<close>

definition executeQuery_begin :: "hook \<Rightarrow> hook" where
  "executeQuery_begin h =
     (let h1 = cancelQuery h
      in h1\<lparr>isStreaming := True, streamedContent := [], currentSqlQuery := None,
            currentStage := None, error := None,
            controllers := controllers h1 @ [False],
            abortControllerRef := Some (length (controllers h1))\<rparr>)"

text \<open>\<open>abortControllerRef.current?.signal.aborted\<close>, read as a condition.\<close>

definition ref_aborted :: "hook \<Rightarrow> bool" where
  "ref_aborted h =
     (case abortControllerRef h of
        None \<Rightarrow> False
      | Some c \<Rightarrow> c < length (controllers h) \<and> controllers h ! c)"

text \<open>
  The body of \<open>for await (const event of streamQuery(question, conversationId))\<close> for one
  event: it breaks, or goes on with a new hook state, a new \<open>result\<close> and the observers
  it called.
\<close>

datatype loop_step = Break | Continue hook "StreamResult option" "callback list"

definition loop_body :: "hook \<Rightarrow> StreamResult option \<Rightarrow> StreamEvent \<Rightarrow> loop_step" where
  "loop_body h result event =
     (if ref_aborted h then Break
      else if ev_type event = ''stage'' \<and> truthy (ev_label event) then
        Continue (h\<lparr>currentStage := ev_label event\<rparr>) result
          [OnStage (string_or (ev_stage event) []) (string_or (ev_label event) [])]
      else if ev_type event = ''token'' \<and> truthy (ev_content event) then
        Continue (h\<lparr>streamedContent := streamedContent h @ string_or (ev_content event) []\<rparr>)
          result [OnToken (string_or (ev_content event) [])]
      else if ev_type event = ''sql'' \<and> truthy (ev_query event) then
        Continue (h\<lparr>currentSqlQuery := ev_query event\<rparr>) result
          [OnSql (string_or (ev_query event) [])]
      else if ev_type event = ''done'' then
        (let r = \<lparr>conversationId = string_or (ev_conversation_id event) [],
                   answer = string_or (ev_answer event) [],
                   res_sqlQuery = ev_sql_query event\<rparr>
         in Continue h (Some r) [OnComplete r])
      else if ev_type event = ''error'' then
        (let errorMsg = string_or (ev_message event) ''An error occurred''
         in Continue (h\<lparr>error := Some errorMsg\<rparr>) result [OnError errorMsg (ev_code event)])
      else Continue h result [])"

text \<open>The \<open>finally\<close> block of \<open>executeQuery\<close>.\<close>

definition executeQuery_finally :: "hook \<Rightarrow> hook" where
  "executeQuery_finally h = h\<lparr>isStreaming := False, abortControllerRef := None\<rparr>"

text \<open>
  The generator that \<open>executeQuery\<close> iterates is \<open>streamQuery(question, conversationId)\<close>:
  the third parameter, \<open>signal\<close>, is not passed.
\<close>

definition executeQuery_stream ::
  "(string \<Rightarrow> StreamEvent option) \<Rightarrow> ('d \<Rightarrow> 'b list \<Rightarrow> string \<times> 'd) \<Rightarrow> 'd \<Rightarrow> 'b read list \<Rightarrow>
     StreamEvent gen_out list \<times> outcome" where
  "executeQuery_stream parse decode d rs = streamQuery_loop parse decode None 0 d [] rs"

text \<open>
  One call of \<open>executeQuery\<close> that nothing interleaves with: the \<open>for await\<close> over the
  events the generator yields, then \<open>return result\<close>, or the \<open>catch\<close> when the generator
  throws, then \<open>finally\<close>. It gives the value returned, the hook state and the observers
  called, in order.
\<close>

fun for_await ::
  "hook \<Rightarrow> StreamResult option \<Rightarrow> StreamEvent list \<Rightarrow> outcome \<Rightarrow>
     hook \<times> StreamResult option \<times> callback list \<times> outcome" where
  "for_await h result [] fin = (h, result, [], fin)"
| "for_await h result (event # events) fin =
     (case loop_body h result event of
        Break \<Rightarrow> (h, result, [], Returned)
      | Continue h1 result1 called \<Rightarrow>
          (let (h2, result2, called2, fin2) = for_await h1 result1 events fin
           in (h2, result2, called @ called2, fin2)))"

definition executeQuery ::
  "hook \<Rightarrow> StreamEvent list \<times> outcome \<Rightarrow> StreamResult option \<times> hook \<times> callback list" where
  "executeQuery h stream =
     (let (h1, result, called, fin) =
            for_await (executeQuery_begin h) None (fst stream) (snd stream)
      in case fin of
           Returned \<Rightarrow> (result, executeQuery_finally h1, called)
         | Threw errorMsg \<Rightarrow>
             (None, executeQuery_finally (h1\<lparr>error := Some errorMsg\<rparr>),
              called @ [OnError errorMsg None]))"

text \<open>
  Calls that interleave. \<open>executeQuery\<close> is asynchronous: between two events of its
  stream other code of the component runs, a second \<open>executeQuery\<close> or \<open>cancelQuery\<close>
  among it. An action is one such uninterrupted piece: a call \<open>k\<close> starts; its loop
  receives the next event of its own stream; its stream ends or throws; \<open>cancelQuery\<close>
  is called. Each call has its own \<open>result\<close> and its own observers: the log records
  which call's observer was called.
\<close>

datatype action =
  Invoke nat
| Next nat StreamEvent
| EndOfStream nat
| StreamThrows nat string
| CancelQuery

record call =
  call_result :: "StreamResult option"
  returned :: "StreamResult option option"

record world =
  hook_state :: hook
  calls :: "nat \<rightharpoonup> call"
  log :: "(nat \<times> callback) list"

text \<open>The \<open>result\<close> variable of call \<open>k\<close> if that call has started and not returned.\<close>

definition running :: "world \<Rightarrow> nat \<Rightarrow> StreamResult option option" where
  "running w k =
     (case calls w k of
        None \<Rightarrow> None
      | Some c \<Rightarrow> (case returned c of None \<Rightarrow> Some (call_result c) | Some _ \<Rightarrow> None))"

definition return_from :: "world \<Rightarrow> nat \<Rightarrow> StreamResult option \<Rightarrow> hook \<Rightarrow> world" where
  "return_from w k v h =
     w\<lparr>hook_state := executeQuery_finally h,
       calls := (calls w)(k \<mapsto> \<lparr>call_result = v, returned = Some v\<rparr>)\<rparr>"

fun step :: "world \<Rightarrow> action \<Rightarrow> world" where
  "step w (Invoke k) =
     w\<lparr>hook_state := executeQuery_begin (hook_state w),
       calls := (calls w)(k \<mapsto> \<lparr>call_result = None, returned = None\<rparr>)\<rparr>"
| "step w (Next k event) =
     (case running w k of
        None \<Rightarrow> w
      | Some result \<Rightarrow>
          (case loop_body (hook_state w) result event of
             Break \<Rightarrow> return_from w k result (hook_state w)
           | Continue h1 result1 called \<Rightarrow>
               w\<lparr>hook_state := h1,
                 calls := (calls w)(k \<mapsto> \<lparr>call_result = result1, returned = None\<rparr>),
                 log := log w @ map (Pair k) called\<rparr>))"
| "step w (EndOfStream k) =
     (case running w k of
        None \<Rightarrow> w
      | Some result \<Rightarrow> return_from w k result (hook_state w))"
| "step w (StreamThrows k errorMsg) =
     (case running w k of
        None \<Rightarrow> w
      | Some result \<Rightarrow>
          (return_from w k None ((hook_state w)\<lparr>error := Some errorMsg\<rparr>))
            \<lparr>log := log w @ [(k, OnError errorMsg None)]\<rparr>)"
| "step w CancelQuery = w\<lparr>hook_state := cancelQuery (hook_state w)\<rparr>"

definition run :: "world \<Rightarrow> action list \<Rightarrow> world" where
  "run w actions = foldl step w actions"

text \<open>The hook as \<open>useStreamingQuery()\<close> creates it, and events as the server sends them.\<close>

definition initial_hook :: hook where
  "initial_hook =
     \<lparr>isStreaming = False, streamedContent = [], currentSqlQuery = None, currentStage = None,
      error = None, controllers = [], abortControllerRef = None\<rparr>"

definition initial_world :: world where
  "initial_world = \<lparr>hook_state = initial_hook, calls = Map.empty, log = []\<rparr>"

definition blank_event :: "string \<Rightarrow> StreamEvent" where
  "blank_event ty =
     \<lparr>ev_type = ty, ev_stage = None, ev_label = None, ev_content = None, ev_query = None,
      ev_conversation_id = None, ev_answer = None, ev_sql_query = None, ev_message = None,
      ev_code = None\<rparr>"

definition token_event :: "string \<Rightarrow> StreamEvent" where
  "token_event s = (blank_event ''token'')\<lparr>ev_content := Some s\<rparr>"

definition done_event :: "string \<Rightarrow> string \<Rightarrow> StreamEvent" where
  "done_event cid ans =
     (blank_event ''done'')\<lparr>ev_conversation_id := Some cid, ev_answer := Some ans\<rparr>"

definition result_of :: "StreamEvent \<Rightarrow> StreamResult" where
  "result_of event =
     \<lparr>conversationId = string_or (ev_conversation_id event) [],
      answer = string_or (ev_answer event) [],
      res_sqlQuery = ev_sql_query event\<rparr>"

text \<open>
  A decoder for chunks that are code units already, and a payload parser that accepts
  the texts \<open>1\<close> and \<open>2\<close>, for running the frame decoder on examples.
\<close>

definition code_units :: "unit \<Rightarrow> char list \<Rightarrow> string \<times> unit" where
  "code_units d v = (v, d)"

definition parse_digit :: "string \<Rightarrow> nat option" where
  "parse_digit s = (if s = ''1'' then Some 1 else if s = ''2'' then Some 2 else None)"

section \<open>hooks/useConversation.ts: rebuilding the message list\<close>

text \<open>The types \<open>ApiMessage\<close> and \<open>Message\<close> of \<open>types/index.ts\<close>.\<close>

record tool_args =
  query :: "string option"

record tool_call =
  name :: "string option"
  args :: "tool_args option"

record ApiMessage =
  api_id :: string
  api_role :: string
  api_content :: string
  tool_calls :: "tool_call list option"

record Message =
  msg_id :: string
  msg_role :: string
  msg_content :: string
  sqlQuery :: "string option"

text \<open>\<open>m.tool_calls?.[0]?.args?.query ?? null\<close>\<close>

definition first_query :: "ApiMessage \<Rightarrow> string option" where
  "first_query m =
     (case tool_calls m of
        None \<Rightarrow> None
      | Some [] \<Rightarrow> None
      | Some (t # _) \<Rightarrow> (case args t of None \<Rightarrow> None | Some a \<Rightarrow> query a))"

text \<open>
  One iteration of the \<open>for (const m of detail.messages)\<close> loop of
  \<open>selectConversation\<close>; the state is \<open>(transformedMessages, pendingSqlQuery)\<close>.
\<close>

definition transform_step ::
  "Message list \<times> string option \<Rightarrow> ApiMessage \<Rightarrow> Message list \<times> string option" where
  "transform_step st m =
     (let (transformedMessages, pendingSqlQuery) = st in
      if api_role m \<noteq> ''user'' \<and> api_role m \<noteq> ''assistant'' then st
      else
        let sql = first_query m;
            pending1 = (if truthy sql then sql else pendingSqlQuery)
        in if trim (api_content m) = [] then (transformedMessages, pending1)
           else
             (transformedMessages @
                [\<lparr>msg_id = api_id m, msg_role = api_role m, msg_content = api_content m,
                  sqlQuery = (if api_role m = ''assistant'' then js_or sql pending1 else None)\<rparr>],
              if api_role m = ''assistant'' then None else pending1))"

text \<open>The list handed to \<open>setMessages\<close> for the history \<open>detail.messages\<close>.\<close>

definition selectConversation :: "ApiMessage list \<Rightarrow> Message list" where
  "selectConversation ms = fst (foldl transform_step ([], None) ms)"

text \<open>A record with everything after the first entry of \<open>tool_calls\<close> removed.\<close>

definition keep_first_tool_call :: "ApiMessage \<Rightarrow> ApiMessage" where
  "keep_first_tool_call m = m\<lparr>tool_calls := map_option (take 1) (tool_calls m)\<rparr>"

section \<open>Properties of the request headers\<close>

lemma credential_header:
  "request_headers clientId openaiApiKey url ''X-OpenAI-API-Key'' =
     (if truthy openaiApiKey \<and> isSecureUrl url then openaiApiKey else None)"
  by (simp add: request_headers_def truthy_def Let_def split: option.splits)

text \<open>
  C1. The claim: the \<open>X-OpenAI-API-Key\<close> header is sent if and only if a key is present
  and the URL is HTTPS or a loopback address, and never to a URL that is neither. The
  code sends the header exactly when the key is non-empty and \<^const>\<open>isSecureUrl\<close>
  holds, and \<^const>\<open>isSecureUrl\<close> looks for \<open>localhost\<close> and \<open>127.0.0.1\<close> anywhere in
  the URL. With \<open>NEXT_PUBLIC_API_URL = http://localhost.attacker.example\<close> the stream
  URL is plain HTTP to a host that is not the loopback host, and the key is sent.
\<close>

theorem C1_key_sent_over_plain_http:
  "(request_headers clientId openaiApiKey url ''X-OpenAI-API-Key'' \<noteq> None
      \<longleftrightarrow> truthy openaiApiKey \<and> isSecureUrl url) \<and>
   streamUrl (Some ''http://localhost.attacker.example'') =
     ''http://localhost.attacker.example/api/v1/query/stream'' \<and>
   url_host ''http://localhost.attacker.example/api/v1/query/stream'' =
     ''localhost.attacker.example'' \<and>
   \<not> spec_secure_destination ''http://localhost.attacker.example/api/v1/query/stream'' \<and>
   request_headers clientId (Some ''sk-user-key'')
     ''http://localhost.attacker.example/api/v1/query/stream'' ''X-OpenAI-API-Key'' =
     Some ''sk-user-key''"
proof -
  have secure: "isSecureUrl ''http://localhost.attacker.example/api/v1/query/stream''"
    by (simp add: isSecureUrl_def startsWith_def)
  have host: "url_host ''http://localhost.attacker.example/api/v1/query/stream'' =
      ''localhost.attacker.example''"
    by (simp add: url_host_def)
  have "\<not> spec_secure_destination ''http://localhost.attacker.example/api/v1/query/stream''"
    unfolding spec_secure_destination_def host by (simp add: startsWith_def)
  moreover have "streamUrl (Some ''http://localhost.attacker.example'') =
      ''http://localhost.attacker.example/api/v1/query/stream''"
    by (simp add: streamUrl_def API_BASE_URL_def string_or_def)
  moreover have "request_headers clientId openaiApiKey url ''X-OpenAI-API-Key'' \<noteq> None
      \<longleftrightarrow> truthy openaiApiKey \<and> isSecureUrl url"
    by (cases openaiApiKey) (simp_all add: credential_header truthy_def)
  ultimately show ?thesis
    using secure host by (simp add: credential_header truthy_def)
qed

section \<open>Properties of the frame decoder\<close>

lemma split_nn_nonempty: "split_nn s \<noteq> []"
  by (induction s rule: split_nn.induct) (auto simp: push_front_def split: list.splits)

lemma push_front_nonempty: "push_front a ps \<noteq> []"
  by (simp add: push_front_def split: list.splits)

lemma push_front_append: "ps \<noteq> [] \<Longrightarrow> push_front a (ps @ qs) = push_front a ps @ qs"
  by (cases ps) (simp_all add: push_front_def)

lemma butlast_push_front:
  "butlast ps \<noteq> [] \<Longrightarrow> butlast (push_front a ps) = push_front a (butlast ps)"
  by (cases ps) (auto simp: push_front_def split: list.splits)

lemma last_push_front:
  "butlast ps \<noteq> [] \<Longrightarrow> last (push_front a ps) = last ps"
  by (cases ps) (auto simp: push_front_def split: list.splits)

lemma split_nn_step:
  "\<not> (a = CHR 0x0A \<and> b = CHR 0x0A) \<Longrightarrow>
     split_nn (a # b # cs) = push_front a (split_nn (b # cs))"
  by auto

lemma split_nn_single: "split_nn s = [p] \<Longrightarrow> p = s"
proof (induction s arbitrary: p rule: split_nn.induct)
  case (1 a b cs)
  show ?case
  proof (cases "a = CHR 0x0A \<and> b = CHR 0x0A")
    case True
    with "1.prems" show ?thesis by (simp add: split_nn_nonempty)
  next
    case False
    with "1.prems" have pf: "push_front a (split_nn (b # cs)) = [p]"
      using split_nn_step[OF False] by simp
    then obtain q where q: "split_nn (b # cs) = [q]" and p: "p = a # q"
      by (cases "split_nn (b # cs)") (auto simp: push_front_def split_nn_nonempty)
    from "1.IH"(2)[OF False q] p show ?thesis by simp
  qed
qed simp_all

lemma split_nn_append:
  "split_nn (s @ t) = butlast (split_nn s) @ split_nn (last (split_nn s) @ t)"
proof (induction s rule: split_nn.induct)
  case (1 a b cs)
  show ?case
  proof (cases "a = CHR 0x0A \<and> b = CHR 0x0A")
    case True
    with "1.IH"(1) show ?thesis by (simp add: split_nn_nonempty)
  next
    case False
    let ?P = "split_nn (b # cs)"
    have "split_nn ((a # b # cs) @ t) = push_front a (split_nn (b # (cs @ t)))"
      using split_nn_step[OF False] by simp
    with "1.IH"(2)[OF False]
    have L: "split_nn ((a # b # cs) @ t) = push_front a (butlast ?P @ split_nn (last ?P @ t))"
      by simp
    have A: "split_nn (a # b # cs) = push_front a ?P" by (rule split_nn_step[OF False])
    show ?thesis
    proof (cases "butlast ?P = []")
      case True
      then have "?P = [last ?P]"
        by (metis append_butlast_last_id append_Nil split_nn_nonempty)
      then have lp: "last ?P = b # cs" and P: "?P = [b # cs]"
        using split_nn_single by metis+
      have "split_nn (a # b # cs @ t) = push_front a (split_nn (b # cs @ t))"
        by (rule split_nn_step[OF False])
      then show ?thesis unfolding A unfolding P by (simp add: push_front_def)
    next
      case False
      show ?thesis unfolding L A
        by (simp add: False push_front_append butlast_push_front last_push_front)
    qed
  qed
qed simp_all

lemma split_nn_last: "split_nn (last (split_nn s)) = [last (split_nn s)]"
proof (induction s rule: split_nn.induct)
  case (1 a b cs)
  show ?case
  proof (cases "a = CHR 0x0A \<and> b = CHR 0x0A")
    case True
    with "1.IH"(1) show ?thesis by (simp add: split_nn_nonempty)
  next
    case False
    let ?P = "split_nn (b # cs)"
    have A: "split_nn (a # b # cs) = push_front a ?P" by (rule split_nn_step[OF False])
    show ?thesis
    proof (cases "butlast ?P = []")
      case True
      then have "?P = [last ?P]"
        by (metis append_butlast_last_id append_Nil split_nn_nonempty)
      then have P: "?P = [b # cs]" using split_nn_single by metis
      have "split_nn (a # b # cs) = [a # b # cs]" unfolding A P by (simp add: push_front_def)
      then show ?thesis by (simp del: split_nn.simps)
    next
      case F: False
      show ?thesis unfolding A using "1.IH"(2)[OF False] by (simp add: last_push_front F)
    qed
  qed
qed simp_all

lemma streamQuery_loop_done:
  "\<not> aborted sig k \<Longrightarrow>
     streamQuery_loop parse decode sig k d buffer [] = (finally_cancel sig (Suc k), Returned)"
  by (subst streamQuery_loop.simps) simp

lemma streamQuery_loop_chunk:
  "\<not> aborted sig k \<Longrightarrow>
     streamQuery_loop parse decode sig k d buffer (Chunk v # rest) =
       (let (text, d1) = decode d v;
            lines = split_nn (buffer @ text);
            (out, res) = streamQuery_loop parse decode sig (Suc k) d1 (last lines) rest
        in (frames_out parse (butlast lines) @ out, res))"
  by (subst streamQuery_loop.simps) simp

lemma frames_out_append: "frames_out parse (xs @ ys) = frames_out parse xs @ frames_out parse ys"
  by (simp add: frames_out_def)

lemma butlast_split_nn_append:
  "butlast (split_nn (s @ t)) = butlast (split_nn s) @ butlast (split_nn (last (split_nn s) @ t))"
  by (subst split_nn_append) (simp add: butlast_append split_nn_nonempty)

lemma last_split_nn_append:
  "last (split_nn (s @ t)) = last (split_nn (last (split_nn s) @ t))"
  by (subst split_nn_append) (simp add: split_nn_nonempty)

lemma streamQuery_loop_text:
  assumes "never_aborted sig" and "split_nn buffer = [buffer]"
  shows "streamQuery_loop parse decode sig k d buffer (map Chunk chunks) =
           (frames_out parse (butlast (split_nn (buffer @ decode_all decode d chunks))), Returned)"
  using assms(2)
proof (induction chunks arbitrary: k d buffer)
  case Nil
  from assms(1) have na: "\<not> aborted sig k" "\<not> aborted sig (Suc k)"
    by (simp_all add: never_aborted_def)
  show ?case using Nil
    by (simp add: streamQuery_loop_done[OF na(1)] finally_cancel_def na(2) frames_out_def)
next
  case (Cons v vs)
  from assms(1) have na: "\<not> aborted sig k" by (simp add: never_aborted_def)
  obtain tx d1 where dec: "decode d v = (tx, d1)" by (cases "decode d v")
  let ?lines = "split_nn (buffer @ tx)"
  have IH: "streamQuery_loop parse decode sig (Suc k) d1 (last ?lines) (map Chunk vs) =
      (frames_out parse (butlast (split_nn (last ?lines @ decode_all decode d1 vs))), Returned)"
    by (rule Cons.IH) (rule split_nn_last)
  have "butlast (split_nn (buffer @ tx @ decode_all decode d1 vs)) =
      butlast ?lines @ butlast (split_nn (last ?lines @ decode_all decode d1 vs))"
    using butlast_split_nn_append[of "buffer @ tx" "decode_all decode d1 vs"] by simp
  then show ?case
    by (simp add: streamQuery_loop_chunk[OF na] dec IH frames_out_append Let_def)
qed

lemma decode_all_concat:
  assumes "stream_decoder decode"
  shows "decode_all decode d vs = fst (decode d (concat vs))"
proof -
  have nil: "\<And>d. decode d [] = ([], d)"
    and app: "\<And>d a b. decode d (a @ b) =
        (let (s, d1) = decode d a; (t, d2) = decode d1 b in (s @ t, d2))"
    using assms by (simp_all add: stream_decoder_def)
  show ?thesis
  proof (induction vs arbitrary: d)
    case Nil
    show ?case by (simp add: nil)
  next
    case (Cons v vs)
    show ?case by (simp add: app Cons.IH split: prod.splits)
  qed
qed

text \<open>
  C5. Chunk-boundary independence. For every sequence of chunks, however the bytes are
  cut (inside a frame, inside the blank line, inside a character), the generator's
  outputs, in order, and its ending are those of the same bytes delivered as one chunk.
  The decoder is any streaming decoder and the signal is absent or never aborted. Each
  iteration parses the pieces before the last blank line and keeps the rest as the next
  buffer (\<open>streamQuery_loop_chunk\<close>).
\<close>

theorem C5_chunk_boundary_independence:
  assumes "stream_decoder decode" and "never_aborted sig"
  shows "streamQuery_loop parse decode sig 0 d [] (map Chunk chunks) =
         streamQuery_loop parse decode sig 0 d [] [Chunk (concat chunks)]"
proof -
  have e: "split_nn [] = [[]]" by simp
  have "decode_all decode d [concat chunks] = decode_all decode d chunks"
    by (simp add: decode_all_concat[OF assms(1)] split: prod.splits)
  then show ?thesis
    using streamQuery_loop_text[OF assms(2) e, of parse decode 0 d chunks]
      streamQuery_loop_text[OF assms(2) e, of parse decode 0 d "[concat chunks]"]
    by simp
qed

lemma no_separator_split: "\<not> includes_str f ''\<newline>\<newline>'' \<Longrightarrow> split_nn f = [f]"
proof (induction f rule: split_nn.induct)
  case (1 a b cs)
  from "1.prems" have ab: "\<not> (a = CHR 0x0A \<and> b = CHR 0x0A)"
    and rest: "\<not> includes_str (b # cs) ''\<newline>\<newline>''"
    by (auto simp: startsWith_def)
  from "1.IH"(2)[OF ab rest] show ?case
    unfolding split_nn_step[OF ab] by (simp add: push_front_def)
qed simp_all

lemma split_frame_sep:
  "frame_ok f \<Longrightarrow> split_nn (f @ ''\<newline>\<newline>'') = [f, []]"
proof (induction f rule: split_nn.induct)
  case (1 a b cs)
  from "1.prems" have ab: "\<not> (a = CHR 0x0A \<and> b = CHR 0x0A)"
    and rest: "frame_ok (b # cs)"
    by (auto simp: frame_ok_def startsWith_def split: if_splits)
  have "split_nn ((a # b # cs) @ ''\<newline>\<newline>'') = push_front a (split_nn ((b # cs) @ ''\<newline>\<newline>''))"
    using split_nn_step[OF ab] by simp
  with "1.IH"(2)[OF ab rest] show ?case by (simp add: push_front_def)
next
  case (2 a)
  then have "a \<noteq> CHR 0x0A" by (simp add: frame_ok_def)
  then show ?case by (simp add: push_front_def)
next
  case 3
  show ?case by simp
qed

lemma split_frame:
  assumes "frame_ok f"
  shows "split_nn (f @ ''\<newline>\<newline>'' @ t) = f # split_nn t"
  using split_nn_append[of "f @ ''\<newline>\<newline>''" t] split_frame_sep[OF assms] by simp

lemma split_wire: "list_all frame_ok fs \<Longrightarrow> split_nn (wire fs @ t) = fs @ split_nn t"
proof (induction fs)
  case Nil
  show ?case by (simp add: wire_def)
next
  case (Cons f fs)
  then have f: "frame_ok f" and IH: "split_nn (wire fs @ t) = fs @ split_nn t"
    by (simp_all add: wire_def)
  have "wire (f # fs) @ t = f @ ''\<newline>\<newline>'' @ (wire fs @ t)" by (simp add: wire_def)
  then show ?case using split_frame[OF f, of "wire fs @ t"] IH by simp
qed

lemma frame_out_valid:
  "parse p = Some e \<Longrightarrow> frame_out parse (''data: '' @ p) = [Yield e]"
  by (simp add: frame_out_def startsWith_def)

lemma frame_out_invalid:
  "parse p = None \<Longrightarrow> frame_out parse (''data: '' @ p) = [Warn (''data: '' @ p)]"
  by (simp add: frame_out_def startsWith_def)

text \<open>
  C6. A frame \<open>data: payload\<close> whose payload \<open>JSON.parse\<close> rejects is skipped. For
  frames \<open>before\<close> and \<open>after\<close> it, however the wire text is cut into chunks, the
  generator returns normally (it does not throw) and its outputs are those of the frames
  before, one warning for the malformed frame, then those of the frames after; a frame
  \<open>data: p\<close> with \<open>parse p = Some e\<close> contributes \<open>Yield e\<close> (\<open>frame_out_valid\<close>).
\<close>

theorem C6_malformed_frame_skipped:
  assumes "never_aborted sig"
    and "list_all frame_ok before" and "list_all frame_ok after"
    and "frame_ok (''data: '' @ payload)" and "parse payload = None"
    and "decode_all decode d chunks = wire (before @ [''data: '' @ payload] @ after)"
  shows "streamQuery_loop parse decode sig 0 d [] (map Chunk chunks) =
           (frames_out parse before @ [Warn (''data: '' @ payload)] @ frames_out parse after,
            Returned)"
proof -
  define bad where "bad = ''data: '' @ payload"
  have e: "split_nn [] = [[]]" by simp
  have w: "frame_out parse bad = [Warn bad]"
    unfolding bad_def by (rule frame_out_invalid) (rule assms(5))
  have ok: "list_all frame_ok (before @ [bad] @ after)"
    using assms(2,3,4) by (simp add: bad_def)
  have "split_nn (wire (before @ [bad] @ after) @ []) = (before @ [bad] @ after) @ [[]]"
    using split_wire[OF ok, of "[]"] by simp
  then have "butlast (split_nn ([] @ decode_all decode d chunks)) = before @ [bad] @ after"
    using assms(6) by (simp add: butlast_append bad_def)
  moreover have "frames_out parse (before @ [bad] @ after) =
      frames_out parse before @ [Warn bad] @ frames_out parse after"
    by (simp add: frames_out_def w)
  ultimately show ?thesis
    using streamQuery_loop_text[OF assms(1) e, of parse decode 0 d chunks]
    unfolding bad_def by simp
qed

lemma stream_decoder_code_units: "stream_decoder code_units"
  by (simp add: stream_decoder_def code_units_def)

lemma never_aborted_None: "never_aborted None"
  by (simp add: never_aborted_def aborted_def)

theorem C5_witness:
  "stream_decoder code_units \<and> never_aborted None \<and>
   streamQuery_loop parse_digit code_units None 0 () []
     (map Chunk [''data: 1\<newline>'', ''\<newline>da'', ''ta: 2\<newline>\<newline>da'']) =
   streamQuery_loop parse_digit code_units None 0 () []
     [Chunk (concat [''data: 1\<newline>'', ''\<newline>da'', ''ta: 2\<newline>\<newline>da''])] \<and>
   streamQuery_loop parse_digit code_units None 0 () []
     (map Chunk [''data: 1\<newline>'', ''\<newline>da'', ''ta: 2\<newline>\<newline>da'']) = ([Yield 1, Yield 2], Returned)"
proof -
  have v: "streamQuery_loop parse_digit code_units None 0 () []
     (map Chunk [''data: 1\<newline>'', ''\<newline>da'', ''ta: 2\<newline>\<newline>da'']) = ([Yield 1, Yield 2], Returned)"
    by code_simp
  show ?thesis
    using C5_chunk_boundary_independence[OF stream_decoder_code_units never_aborted_None,
        of parse_digit "()" "[''data: 1\<newline>'', ''\<newline>da'', ''ta: 2\<newline>\<newline>da'']"]
      stream_decoder_code_units never_aborted_None v
    by simp
qed

theorem C6_witness:
  "never_aborted None \<and> list_all frame_ok [''data: 1''] \<and> list_all frame_ok [''data: 2''] \<and>
   frame_ok (''data: '' @ ''{bad'') \<and> parse_digit ''{bad'' = None \<and>
   decode_all code_units () [''data: 1\<newline>'', ''\<newline>data: {b'', ''ad\<newline>\<newline>data: 2\<newline>\<newline>''] =
     wire ([''data: 1''] @ [''data: '' @ ''{bad''] @ [''data: 2'']) \<and>
   streamQuery_loop parse_digit code_units None 0 () []
     (map Chunk [''data: 1\<newline>'', ''\<newline>data: {b'', ''ad\<newline>\<newline>data: 2\<newline>\<newline>'']) =
     ([Yield 1, Warn ''data: {bad'', Yield 2], Returned)"
proof -
  have h2: "list_all frame_ok [''data: 1'']" and h3: "list_all frame_ok [''data: 2'']"
    and h4: "frame_ok (''data: '' @ ''{bad'')"
    by (simp_all add: frame_ok_def startsWith_def)
  have h5: "parse_digit ''{bad'' = None" by (simp add: parse_digit_def)
  have h6: "decode_all code_units () [''data: 1\<newline>'', ''\<newline>data: {b'', ''ad\<newline>\<newline>data: 2\<newline>\<newline>''] =
     wire ([''data: 1''] @ [''data: '' @ ''{bad''] @ [''data: 2''])"
    by (simp add: code_units_def wire_def)
  have f1: "frames_out parse_digit [''data: 1''] = [Yield 1]"
    and f2: "frames_out parse_digit [''data: 2''] = [Yield 2]"
    by (simp_all add: frames_out_def frame_out_def startsWith_def parse_digit_def)
  show ?thesis
    using C6_malformed_frame_skipped[where parse = parse_digit and payload = "''{bad''"
        and decode = code_units, OF never_aborted_None h2 h3 h4 h5 h6]
      never_aborted_None h2 h3 h4 h5 h6
    unfolding f1 f2 by simp
qed

lemma aborted_None: "\<not> aborted None k"
  by (simp add: aborted_def)

lemma no_signal_no_cancel:
  "ReaderCancel \<notin> set (fst (streamQuery_loop parse decode None k d buffer rs))"
proof (induction rs arbitrary: k d buffer)
  case Nil
  show ?case
    by (simp add: streamQuery_loop_done[OF aborted_None] finally_cancel_def aborted_None)
next
  case (Cons r rs)
  show ?case
  proof (cases r)
    case (Chunk v)
    obtain tx d1 where dec: "decode d v = (tx, d1)" by (cases "decode d v")
    have "ReaderCancel \<notin> set (frames_out parse ls)" for ls
      by (induction ls) (auto simp: frames_out_def frame_out_def split: option.splits)
    moreover obtain out res
      where rest: "streamQuery_loop parse decode None (Suc k) d1
          (last (split_nn (buffer @ tx))) rs = (out, res)"
      by (cases "streamQuery_loop parse decode None (Suc k) d1
          (last (split_nn (buffer @ tx))) rs")
    moreover have "ReaderCancel \<notin> set out"
      using Cons.IH[of "Suc k" d1 "last (split_nn (buffer @ tx))"] rest by simp
    ultimately show ?thesis
      by (simp add: Chunk streamQuery_loop_chunk[OF aborted_None] dec Let_def)
  next
    case (ReadError msg)
    show ?thesis
      by (subst streamQuery_loop.simps)
        (simp add: ReadError aborted_None finally_cancel_def)
  qed
qed

section \<open>Properties of the device identifier\<close>

lemma replicate_numeral: "replicate (numeral k) x = x # replicate (pred_numeral k) x"
  by (simp add: numeral_eq_Suc)

lemma toString_length:
  "2 \<le> r \<Longrightarrow> 0 < k \<Longrightarrow> n < r ^ k \<Longrightarrow> length (toString r n) \<le> k"
proof (induction r n arbitrary: k rule: toString.induct)
  case (1 radix n)
  show ?case
  proof (cases "n < radix")
    case True
    then show ?thesis using "1.prems" by (subst toString.simps) simp
  next
    case False
    with "1.prems" have "1 < k"
      by (metis One_nat_def Suc_lessI power_one_right)
    then obtain j where k: "k = Suc j" and j: "0 < j" by (cases k) auto
    have "n div radix < radix ^ j"
      using "1.prems" k by (simp add: less_mult_imp_div_less mult.commute)
    with "1.IH"[of j] "1.prems" False j have "length (toString radix (n div radix)) \<le> j" by simp
    then show ?thesis using False "1.prems" k by (subst toString.simps) simp
  qed
qed

lemma digit_char_hex: "d < 16 \<Longrightarrow> is_hex (digit_char d)"
proof -
  assume "d < 16"
  then have "d \<in> set [0..<16]" by simp
  moreover have "list_all (\<lambda>d. is_hex (digit_char d)) [0..<16]"
    by (simp add: upt_rec is_hex_def digit_char_def)
  ultimately show ?thesis unfolding list_all_iff by blast
qed

lemma toString_hex: "list_all is_hex (toString 16 n)"
proof (induction "16::nat" n rule: toString.induct)
  case (1 n)
  show ?case
  proof (cases "n < 16")
    case True
    then show ?thesis by (subst toString.simps) (simp add: digit_char_hex)
  next
    case False
    with 1 have "list_all is_hex (toString 16 (n div 16))" by simp
    then show ?thesis using False by (subst toString.simps) (simp add: digit_char_hex)
  qed
qed

lemma hashString_bound: "hashString s < 2 ^ 32"
proof -
  have "unat w < 2 ^ 32" for w :: "32 word"
    using unsigned_less[of w, where 'a = nat] by simp
  then show ?thesis by (simp add: hashString_def)
qed

lemma hex8_length: "n < 2 ^ 32 \<Longrightarrow> length (hex8 n) = 8"
proof -
  assume "n < 2 ^ 32"
  then have "n < 16 ^ 8" by simp
  then have "length (toString 16 n) \<le> 8" by (intro toString_length) simp_all
  then show ?thesis by (simp add: hex8_def padStart_def)
qed

lemma hex8_hex: "list_all is_hex (hex8 n)"
proof -
  have "list_all is_hex (replicate k CHR ''0'')" for k
    by (induction k) (simp_all add: is_hex_def)
  then show ?thesis by (simp add: hex8_def padStart_def toString_hex)
qed

lemma split_char_single: "c \<notin> set g \<Longrightarrow> split_char c g = [g]"
  by (induction g) auto

lemma split_char_group: "c \<notin> set g \<Longrightarrow> split_char c (g @ c # rest) = g # split_char c rest"
  by (induction g) auto

lemma hyphen_not_hex: "\<not> is_hex CHR ''-''"
  by (simp add: is_hex_def)

lemma hex_no_hyphen: "list_all is_hex g \<Longrightarrow> CHR ''-'' \<notin> set g"
  unfolding list_all_iff using hyphen_not_hex by blast

lemma list_all_take: "list_all P xs \<Longrightarrow> list_all P (take n xs)"
  by (auto simp: list_all_iff dest: in_set_takeD)

lemma list_all_drop: "list_all P xs \<Longrightarrow> list_all P (drop n xs)"
  by (auto simp: list_all_iff dest: in_set_dropD)

lemma uuid_like_shape:
  assumes len: "length h1 = 8" "length h2 = 8" "length h3 = 8" "length h4 = 8"
    and hex: "list_all is_hex h1" "list_all is_hex h2" "list_all is_hex h3" "list_all is_hex h4"
  defines "s \<equiv> h1 @ ''-'' @ slice h2 0 4 @ ''-4'' @ slice h2 5 8 @ ''-'' @ slice h3 0 4 @ ''-'' @
         drop 4 h3 @ slice h4 0 4"
  shows "split_char CHR ''-'' s =
           [h1, take 4 h2, CHR ''4'' # take 3 (drop 5 h2), take 4 h3, drop 4 h3 @ take 4 h4]"
proof -
  let ?g2 = "take 4 h2" and ?g3 = "CHR ''4'' # take 3 (drop 5 h2)" and ?g4 = "take 4 h3"
    and ?g5 = "drop 4 h3 @ take 4 h4"
  have s: "s = h1 @ CHR ''-'' # ?g2 @ CHR ''-'' # ?g3 @ CHR ''-'' # ?g4 @ CHR ''-'' # ?g5"
    by (simp add: s_def slice_def)
  have n1: "CHR ''-'' \<notin> set h1" by (rule hex_no_hyphen) (rule hex)
  have n2: "CHR ''-'' \<notin> set ?g2" by (rule hex_no_hyphen) (simp add: list_all_take hex)
  have n3: "CHR ''-'' \<notin> set ?g3"
    using hex_no_hyphen[of "take 3 (drop 5 h2)"] by (simp add: list_all_take list_all_drop hex)
  have n4: "CHR ''-'' \<notin> set ?g4" by (rule hex_no_hyphen) (simp add: list_all_take hex)
  have n5: "CHR ''-'' \<notin> set ?g5"
    by (rule hex_no_hyphen) (simp add: list_all_take list_all_drop hex)
  show ?thesis
    unfolding s
    by (simp only: split_char_group[OF n1] split_char_group[OF n2] split_char_group[OF n3]
        split_char_group[OF n4] split_char_single[OF n5])
qed

lemma example_device_fingerprint:
  "join (components example_device) ''|'' =
     ''1920x1080|24|24|1|UTC|en-US|en-US,en|Linux x86_64|8|8''"
  by (simp add: components_def example_device_def show_number_def number_or_def string_or_def
      toString.simps digit_char_def)

lemma example_device_id:
  "generateDeviceFingerprint example_device = ''6bfaedbb-7106-43bb-301c-db26a709''"
  unfolding generateDeviceFingerprint_def example_device_fingerprint
  unfolding format_id_def Let_def
  by (simp add: example_device_def hashString_def hex8_def toString.simps digit_char_def
      padStart_def slice_def replicate_numeral)

text \<open>
  C8. The claim: the identifier has the UUID grouping 8-4-4-4-12 with the version
  nibble 4. For every fingerprint the identifier the code builds has five groups of
  lower-case hexadecimal digits separated by hyphens, the third group begins with 4,
  but the groups have 8, 4, 4, 4 and 8 digits (32 characters in all, where a UUID has 36):
  of the fourth hash only \<open>hex4.slice(0, 4)\<close> is used. The example device gets
  \<open>6bfaedbb-7106-43bb-301c-db26a709\<close>.
\<close>

theorem C8_id_shape:
  "map length (split_char CHR ''-'' (format_id fingerprint)) = [8, 4, 4, 4, 8] \<and>
   list_all (list_all is_hex) (split_char CHR ''-'' (format_id fingerprint)) \<and>
   hd (split_char CHR ''-'' (format_id fingerprint) ! 2) = CHR ''4'' \<and>
   length (format_id fingerprint) = 32 \<and>
   generateDeviceFingerprint example_device = ''6bfaedbb-7106-43bb-301c-db26a709''"
proof -
  define h1 where "h1 = hex8 (hashString fingerprint)"
  define h2 where "h2 = hex8 (hashString (rev fingerprint))"
  define h3 where "h3 = hex8 (hashString (toString 10 (hashString fingerprint) @
      toString 10 (hashString (rev fingerprint))))"
  define h4 where "h4 = hex8 (hashString (fingerprint @ ''salt''))"
  have len: "length h1 = 8" "length h2 = 8" "length h3 = 8" "length h4 = 8"
    unfolding h1_def h2_def h3_def h4_def by (rule hex8_length[OF hashString_bound])+
  have hex: "list_all is_hex h1" "list_all is_hex h2" "list_all is_hex h3" "list_all is_hex h4"
    by (simp_all add: h1_def h2_def h3_def h4_def hex8_hex)
  have f: "format_id fingerprint =
      h1 @ ''-'' @ slice h2 0 4 @ ''-4'' @ slice h2 5 8 @ ''-'' @ slice h3 0 4 @ ''-'' @
         drop 4 h3 @ slice h4 0 4"
    by (simp add: format_id_def Let_def h1_def h2_def h3_def h4_def)
  have groups: "split_char CHR ''-'' (format_id fingerprint) =
      [h1, take 4 h2, CHR ''4'' # take 3 (drop 5 h2), take 4 h3, drop 4 h3 @ take 4 h4]"
    unfolding f by (rule uuid_like_shape[OF len hex])
  have "length (format_id fingerprint) = 32"
    unfolding f by (simp add: slice_def len)
  moreover have "generateDeviceFingerprint example_device = ''6bfaedbb-7106-43bb-301c-db26a709''"
    by (rule example_device_id)
  ultimately show ?thesis
    unfolding groups
    by (simp add: len hex list_all_take list_all_drop) (simp add: is_hex_def)
qed

text \<open>
  C9. With the device held fixed, \<open>getClientId\<close> is stable: two calls in a row, with
  the storage the first one leaves, return the same value; and the value returned after
  \<open>clearClientId\<close> is returned again after another \<open>clearClientId\<close>. This holds for
  every device and every content of the storage.
\<close>

theorem C9_getClientId_stable:
  "(let (a, s1) = getClientId dev localStorage; (b, s2) = getClientId dev s1 in a = b) \<and>
   (let s1 = clearClientId dev localStorage;
        (a, s2) = getClientId dev s1;
        s3 = clearClientId dev s2;
        (b, s4) = getClientId dev s3
    in a = b)"
  by (simp add: getClientId_def clearClientId_def truthy_def string_or_def Let_def
      split: option.splits)
section \<open>Properties of the streaming hook\<close>

lemma ref_aborted_cancelQuery: "\<not> ref_aborted (cancelQuery h)"
  by (simp add: ref_aborted_def cancelQuery_def split: option.splits)

lemma ref_aborted_begin: "\<not> ref_aborted (executeQuery_begin h)"
  by (simp add: ref_aborted_def executeQuery_begin_def Let_def)

lemma loop_body_no_break: "\<not> ref_aborted h \<Longrightarrow> loop_body h result event \<noteq> Break"
  by (simp add: loop_body_def Let_def)

lemma loop_body_controllers:
  "loop_body h result event = Continue h1 result1 called \<Longrightarrow>
     controllers h1 = controllers h \<and> abortControllerRef h1 = abortControllerRef h"
  by (auto simp: loop_body_def Let_def split: if_splits)

lemma loop_body_ref:
  "loop_body h result event = Continue h1 result1 called \<Longrightarrow> ref_aborted h1 = ref_aborted h"
proof -
  assume "loop_body h result event = Continue h1 result1 called"
  then have "controllers h1 = controllers h" "abortControllerRef h1 = abortControllerRef h"
    using loop_body_controllers by blast+
  then show ?thesis unfolding ref_aborted_def by (simp split: option.splits)
qed

lemma loop_body_done:
  "\<not> ref_aborted h \<Longrightarrow> ev_type event = ''done'' \<Longrightarrow>
     loop_body h result event = Continue h (Some (result_of event)) [OnComplete (result_of event)]"
  by (simp add: loop_body_def Let_def result_of_def)

lemma for_await_last_done:
  assumes "ev_type d = ''done''"
  shows "\<not> ref_aborted h \<Longrightarrow>
     (case for_await h result (events @ [d]) fin of
        (h1, result1, called, fin1) \<Rightarrow> result1 = Some (result_of d) \<and> fin1 = fin)"
proof (induction events arbitrary: h result)
  case Nil
  then show ?case by (simp add: loop_body_done[OF _ assms])
next
  case (Cons e es)
  from Cons.prems obtain h1 result1 called
    where lb: "loop_body h result e = Continue h1 result1 called"
    using loop_body_no_break[of h result e] by (cases "loop_body h result e") auto
  with Cons.prems have "\<not> ref_aborted h1" using loop_body_ref by blast
  from Cons.IH[OF this, of result1] show ?case
    by (simp add: lb split: prod.splits)
qed

text \<open>
  C2. The claim: when the stream ends with a \<open>done\<close> event, the result's answer is the
  event's own answer if that is non-empty and the accumulated token text otherwise. The
  code takes \<open>event.answer || ""\<close>: for every hook state and every stream that ends
  with a \<open>done\<close> event and returns normally, \<open>executeQuery\<close> returns the result built
  from that event alone, with the event's answer, or the empty string when the event has
  none. The token text is kept in \<open>streamedContent\<close> and handed to \<open>onToken\<close>; the
  caller's \<open>onComplete\<close> falls back to the text it has accumulated.
\<close>

theorem C2_answer_of_done_event:
  assumes "ev_type d = ''done''"
  shows "fst (executeQuery h (events @ [d], Returned)) =
           Some \<lparr>conversationId = string_or (ev_conversation_id d) [],
                 answer = string_or (ev_answer d) [],
                 res_sqlQuery = ev_sql_query d\<rparr>"
  using for_await_last_done[OF assms ref_aborted_begin,
      where h1 = h and result = None and events = events and fin = Returned]
  by (simp add: executeQuery_def result_of_def split: prod.splits)

theorem C2_answer_of_done_event_witness:
  "ev_type (done_event ''c1'' ''Hi'') = ''done'' \<and>
   fst (executeQuery initial_hook ([token_event ''H'', token_event ''i''] @ [done_event ''c1'' ''Hi''], Returned)) =
     Some \<lparr>conversationId = ''c1'', answer = ''Hi'', res_sqlQuery = None\<rparr>"
proof -
  have t: "ev_type (done_event ''c1'' ''Hi'') = ''done''" by (simp add: done_event_def blank_event_def)
  show ?thesis
    using C2_answer_of_done_event[OF t, of initial_hook "[token_event ''H'', token_event ''i'']"]
    by (simp add: done_event_def blank_event_def string_or_def)
qed

text \<open>
  The tokens "Hello " and "world" followed by a \<open>done\<close> event with an empty answer:
  \<open>streamedContent\<close> holds "Hello world", and the answer of the result is not that.
\<close>

theorem C2_no_fallback_counterexample:
  "streamedContent (fst (snd (executeQuery initial_hook
       ([token_event ''Hello '', token_event ''world'', done_event ''c1'' []], Returned)))) = ''Hello world'' \<and>
   map_option answer (fst (executeQuery initial_hook
       ([token_event ''Hello '', token_event ''world'', done_event ''c1'' []], Returned))) \<noteq> Some ''Hello world''"
  by (simp add: executeQuery_def executeQuery_begin_def executeQuery_finally_def cancelQuery_def
      initial_hook_def loop_body_def ref_aborted_def token_event_def done_event_def blank_event_def truthy_def
      string_or_def Let_def)

lemma after_begin_no_break: "loop_body (executeQuery_begin h) result event \<noteq> Break"
  by (rule loop_body_no_break) (rule ref_aborted_begin)

lemma after_cancel_no_break: "loop_body (cancelQuery h) result event \<noteq> Break"
  by (rule loop_body_no_break) (rule ref_aborted_cancelQuery)

lemma ref_aborted_finally: "\<not> ref_aborted (executeQuery_finally h)"
  by (simp add: ref_aborted_def executeQuery_finally_def)

lemma step_abort_test:
  assumes "\<not> ref_aborted (hook_state w)"
  shows "\<not> ref_aborted (hook_state (step w a))"
proof (cases a)
  case (Invoke k)
  then show ?thesis by (simp add: ref_aborted_begin)
next
  case (Next k event)
  show ?thesis
  proof (cases "running w k")
    case None
    with Next assms show ?thesis by simp
  next
    case (Some result)
    show ?thesis
    proof (cases "loop_body (hook_state w) result event")
      case Break
      with Next Some show ?thesis by (simp add: return_from_def ref_aborted_finally)
    next
      case (Continue h1 result1 called)
      with Next Some assms loop_body_ref[OF Continue] show ?thesis by simp
    qed
  qed
next
  case (EndOfStream k)
  with assms show ?thesis
    by (cases "running w k") (simp_all add: return_from_def ref_aborted_finally)
next
  case (StreamThrows k errorMsg)
  with assms show ?thesis
    by (cases "running w k") (simp_all add: return_from_def ref_aborted_finally)
next
  case CancelQuery
  then show ?thesis by (simp add: ref_aborted_cancelQuery)
qed

lemma run_abort_test:
  "\<not> ref_aborted (hook_state w) \<Longrightarrow> \<not> ref_aborted (hook_state (run w actions))"
  unfolding run_def by (induction actions arbitrary: w) (simp_all add: step_abort_test)

lemma abort_test_never_true: "\<not> ref_aborted (hook_state (run initial_world actions))"
  by (rule run_abort_test) (simp add: initial_world_def initial_hook_def ref_aborted_def)

lemmas hook_eval =
  run_def initial_world_def initial_hook_def running_def return_from_def
  executeQuery_begin_def executeQuery_finally_def cancelQuery_def loop_body_def ref_aborted_def
  token_event_def done_event_def blank_event_def truthy_def string_or_def Let_def

text \<open>
  C3. The claim: a second \<open>executeQuery\<close> cancels the first, whose \<open>onComplete\<close> and
  \<open>onError\<close> then never fire. In the code the second call aborts the first call's
  controller and puts its own, fresh one in \<open>abortControllerRef\<close>; the first call's
  loop tests whatever controller the ref holds, never its own, and the signal is not
  passed to \<open>streamQuery\<close>. So after any \<open>executeQuery\<close> has started, no loop body
  breaks, whichever call it belongs to. On the trace "call 1 starts, receives a token,
  call 2 starts, call 1's stream delivers \<open>done\<close>", call 1 is still running when call 2
  has started, and its \<open>onComplete\<close> fires afterwards. (Observers are per call: the
  event is handed to the observers of call 1, not to those of call 2.)
\<close>

theorem C3_first_call_not_cancelled:
  "loop_body (executeQuery_begin h) result event \<noteq> Break \<and>
   running (run initial_world [Invoke 1, Next 1 (token_event ''a''), Invoke 2]) 1 = Some None \<and>
   log (run initial_world [Invoke 1, Next 1 (token_event ''a''), Invoke 2]) = [(1, OnToken ''a'')] \<and>
   log (run initial_world
          [Invoke 1, Next 1 (token_event ''a''), Invoke 2, Next 1 (done_event ''c1'' ''a'')]) =
     [(1, OnToken ''a''),
      (1, OnComplete \<lparr>conversationId = ''c1'', answer = ''a'', res_sqlQuery = None\<rparr>)]"
  by (simp add: after_begin_no_break) (simp add: hook_eval)

text \<open>
  C4. The claim: after \<open>cancelQuery\<close> in mid-stream the loop exits without further
  observer calls, the reader is released and \<open>executeQuery\<close> returns \<open>null\<close>. In the
  code \<open>cancelQuery\<close> aborts the controller and sets \<open>abortControllerRef.current\<close> to
  \<open>null\<close>, so the loop's test \<open>abortControllerRef.current?.signal.aborted\<close> is false
  from then on: after \<open>cancelQuery\<close> no loop body breaks, and in no state that calls,
  events and cancellations lead to is the test true. On the trace "call 1 starts,
  receives token a, \<open>cancelQuery\<close>, then its stream delivers token b and \<open>done\<close> and
  ends", \<open>onToken\<close> and \<open>onComplete\<close> fire after the cancellation and the call returns
  the result, not \<open>null\<close>. The generator is created without a signal, so it never calls
  \<open>reader.cancel()\<close>, whatever it reads. (No \<open>onError\<close> is called, as the claim says.)
\<close>

theorem C4_cancel_does_not_stop_the_loop:
  "loop_body (cancelQuery h) result event \<noteq> Break \<and>
   \<not> ref_aborted (hook_state (run initial_world actions)) \<and>
   log (run initial_world [Invoke 1, Next 1 (token_event ''a''), CancelQuery]) =
     [(1, OnToken ''a'')] \<and>
   log (run initial_world
          [Invoke 1, Next 1 (token_event ''a''), CancelQuery, Next 1 (token_event ''b''),
           Next 1 (done_event ''c1'' ''ab''), EndOfStream 1]) =
     [(1, OnToken ''a''), (1, OnToken ''b''),
      (1, OnComplete \<lparr>conversationId = ''c1'', answer = ''ab'', res_sqlQuery = None\<rparr>)] \<and>
   map_option returned
     (calls (run initial_world
          [Invoke 1, Next 1 (token_event ''a''), CancelQuery, Next 1 (token_event ''b''),
           Next 1 (done_event ''c1'' ''ab''), EndOfStream 1]) 1) =
     Some (Some (Some \<lparr>conversationId = ''c1'', answer = ''ab'', res_sqlQuery = None\<rparr>)) \<and>
   ReaderCancel \<notin> set (fst (executeQuery_stream parse decode d rs))"
  by (simp add: after_cancel_no_break abort_test_never_true executeQuery_stream_def
      no_signal_no_cancel)
     (simp add: hook_eval)

section \<open>Properties of the reconstruction\<close>

lemma first_query_keep_first: "first_query (keep_first_tool_call m) = first_query m"
  by (simp add: first_query_def keep_first_tool_call_def split: option.splits list.splits)

lemma transform_step_keep_first:
  "transform_step st (keep_first_tool_call m) = transform_step st m"
proof -
  have fields: "api_role (keep_first_tool_call m) = api_role m"
    "api_content (keep_first_tool_call m) = api_content m"
    "api_id (keep_first_tool_call m) = api_id m"
    by (simp_all add: keep_first_tool_call_def)
  show ?thesis
    unfolding transform_step_def fields first_query_keep_first by (rule refl)
qed

lemma foldl_transform_keep_first:
  "foldl transform_step st (map keep_first_tool_call ms) = foldl transform_step st ms"
  by (induction ms arbitrary: st) (simp_all add: transform_step_keep_first)

text \<open>
  C7. The history \<open>[user "Q1", assistant "" with a tool call whose query is "SELECT 1",
  assistant "Answer"]\<close> is rebuilt as exactly two messages: the user message "Q1"
  without a query, then the assistant message "Answer" carrying "SELECT 1". The
  assistant record with empty content emits nothing, and its query is carried to the next
  assistant record with content. This holds whatever the ids and the tool's name are.
\<close>

theorem C7_carry_forward:
  "selectConversation
     [\<lparr>api_id = i1, api_role = ''user'', api_content = ''Q1'', tool_calls = None\<rparr>,
      \<lparr>api_id = i2, api_role = ''assistant'', api_content = '''',
        tool_calls = Some [\<lparr>name = nm, args = Some \<lparr>query = Some ''SELECT 1''\<rparr>\<rparr>]\<rparr>,
      \<lparr>api_id = i3, api_role = ''assistant'', api_content = ''Answer'', tool_calls = None\<rparr>]
   = [\<lparr>msg_id = i1, msg_role = ''user'', msg_content = ''Q1'', sqlQuery = None\<rparr>,
      \<lparr>msg_id = i3, msg_role = ''assistant'', msg_content = ''Answer'',
        sqlQuery = Some ''SELECT 1''\<rparr>]"
  by (simp add: selectConversation_def transform_step_def first_query_def truthy_def
      js_or_def trim_def is_space_def)

text \<open>
  C10. Only the first entry of a record's \<open>tool_calls\<close> is inspected: cutting every
  record's \<open>tool_calls\<close> down to its first entry leaves the rebuilt list unchanged, for
  every history. In particular a record whose first entry has no query and whose second
  entry has one contributes no query at all.
\<close>

theorem C10_only_first_tool_call:
  "selectConversation (map keep_first_tool_call ms) = selectConversation ms
   \<and> selectConversation
       [\<lparr>api_id = i, api_role = ''assistant'', api_content = ''A'',
         tool_calls = Some [\<lparr>name = n1, args = Some \<lparr>query = None\<rparr>\<rparr>,
                            \<lparr>name = n2, args = Some \<lparr>query = Some ''SELECT 2''\<rparr>\<rparr>]\<rparr>]
     = [\<lparr>msg_id = i, msg_role = ''assistant'', msg_content = ''A'', sqlQuery = None\<rparr>]"
  by (simp add: selectConversation_def foldl_transform_keep_first transform_step_def
      first_query_def truthy_def js_or_def trim_def is_space_def)

end
